theory Spec2Isabelle
  imports Complex_Main "HOL-Library.Sublist"
begin

unbundle bit_operations_syntax

section \<open>Face recognition app: matching, gallery, frame processing and main loop\<close>

text \<open>
  Python floats are modelled as \<^typ>\<open>real\<close>: arithmetic is exact, and NaN, infinities
  and rounding are outside the model. Every \<^verbatim>\<open>raise\<close> of the source (and of the
  numpy and builtin operations it calls) is a value \<open>Inl e\<close> of the result type.
\<close>

subsection \<open>Errors and builtin operations\<close>

datatype error = ZeroDivisionError | ValueError | IndexError | NotADirectoryError

type_synonym embedding = "real list"

text \<open>Python's \<^verbatim>\<open>a / b\<close> on floats raises when the divisor is zero.\<close>

definition py_truediv :: "real \<Rightarrow> real \<Rightarrow> error + real" where
  "py_truediv a b = (if b = 0 then Inl ZeroDivisionError else Inr (a / b))"

text \<open>Python's \<^verbatim>\<open>xs[i]\<close> for a non-negative index.\<close>

definition py_index :: "'a list \<Rightarrow> nat \<Rightarrow> error + 'a" where
  "py_index xs i = (if i < length xs then Inr (xs ! i) else Inl IndexError)"

text \<open>
  \<^verbatim>\<open>np.stack\<close> of a list of one-dimensional arrays: all shapes must agree, and the
  list must not be empty.
\<close>

definition np_stack :: "embedding list \<Rightarrow> error + embedding list" where
  "np_stack arrs =
     (case arrs of
        [] \<Rightarrow> Inl ValueError
      | a # rest \<Rightarrow>
          if list_all (\<lambda>b. length b = length a) rest then Inr arrs else Inl ValueError)"

text \<open>
  One row of \<^verbatim>\<open>encodings_array - embedding\<close>. numpy broadcasts an axis of length 1
  against the other operand; any other shape mismatch raises.
\<close>

definition row_sub :: "embedding \<Rightarrow> embedding \<Rightarrow> error + embedding" where
  "row_sub row q =
     (if length row = length q then Inr (map2 (\<lambda>x y. x - y) row q)
      else if length q = 1 then Inr (map (\<lambda>x. x - hd q) row)
      else if length row = 1 then Inr (map (\<lambda>y. hd row - y) q)
      else Inl ValueError)"

fun np_sub :: "embedding list \<Rightarrow> embedding \<Rightarrow> error + embedding list" where
  "np_sub [] q = Inr []"
| "np_sub (row # rows) q =
     (case row_sub row q of
        Inl e \<Rightarrow> Inl e
      | Inr d \<Rightarrow> (case np_sub rows q of Inl e \<Rightarrow> Inl e | Inr ds \<Rightarrow> Inr (d # ds)))"

text \<open>\<^verbatim>\<open>np.linalg.norm(diff, axis=1)\<close>: the Euclidean norm of every row.\<close>

definition l2norm :: "embedding \<Rightarrow> real" where
  "l2norm v = sqrt (sum_list (map (\<lambda>x. x\<^sup>2) v))"

definition np_linalg_norm :: "embedding list \<Rightarrow> real list" where
  "np_linalg_norm diff = map l2norm diff"

text \<open>
  \<^verbatim>\<open>np.argmin\<close>: a left-to-right scan that replaces the best index only on a strictly
  smaller value, so the first occurrence of the minimum is returned; an empty array raises.
\<close>

fun argmin_scan :: "nat \<Rightarrow> real \<Rightarrow> nat \<Rightarrow> real list \<Rightarrow> nat" where
  "argmin_scan bi bv i [] = bi"
| "argmin_scan bi bv i (x # xs) =
     (if x < bv then argmin_scan i x (Suc i) xs else argmin_scan bi bv (Suc i) xs)"

definition np_argmin :: "real list \<Rightarrow> error + nat" where
  "np_argmin ds = (case ds of [] \<Rightarrow> Inl ValueError | d # rest \<Rightarrow> Inr (argmin_scan 0 d 1 rest))"

subsection \<open>Records of the application\<close>

type_synonym box4 = "int \<times> int \<times> int \<times> int"

text \<open>\<^verbatim>\<open>VideoOverlayFace\<close> (views/video_view.py): box is (top, right, bottom, left).\<close>

record VideoOverlayFace =
  box :: box4
  label :: string
  confidence :: real

text \<open>\<^verbatim>\<open>SimpleFaceRecognizer\<close> (models/face_recognizer.py), the legacy backend.\<close>

record SimpleFaceRecognizer =
  tolerance :: real
  encodings :: "embedding list"
  names :: "string list"

text \<open>\<^verbatim>\<open>RecognitionResult\<close> (models/face_recognizer.py).\<close>

record RecognitionResult =
  name :: string
  confidence :: real

definition unknown_result :: RecognitionResult where
  "unknown_result = \<lparr>name = ''Unknown'', confidence = 0\<rparr>"

text \<open>\<^verbatim>\<open>InsightFaceRecognizedFace\<close> (models/insightface_service.py).\<close>

record InsightFaceRecognizedFace =
  box :: box4
  result :: RecognitionResult

text \<open>
  A face object returned by \<^verbatim>\<open>FaceAnalysis.get\<close>: its bounding box (x1, y1, x2, y2)
  as floats and its embedding.
\<close>

record Face =
  bbox :: "real \<times> real \<times> real \<times> real"
  embedding :: embedding

text \<open>
  The fields of \<^verbatim>\<open>InsightFaceService\<close> that the matching code reads. The
  \<^verbatim>\<open>FaceAnalysis\<close> object is an opaque capability: its \<^verbatim>\<open>get\<close> method is a
  parameter \<open>app\<close> of the functions that call it, from an image to the faces found there.
\<close>

record InsightFaceService =
  tolerance :: real
  encodings :: "embedding list"
  names :: "string list"

subsection \<open>Matching: \<^verbatim>\<open>InsightFaceService._match_embedding\<close>\<close>

definition match_embedding :: "InsightFaceService \<Rightarrow> embedding \<Rightarrow> error + RecognitionResult" where
  "match_embedding s emb =
     (if encodings s = [] then Inr unknown_result
      else
        case np_stack (encodings s) of
          Inl e \<Rightarrow> Inl e
        | Inr encodings_array \<Rightarrow>
            (case np_sub encodings_array emb of
               Inl e \<Rightarrow> Inl e
             | Inr diff \<Rightarrow>
                 (let distances = np_linalg_norm diff in
                  case np_argmin distances of
                    Inl e \<Rightarrow> Inl e
                  | Inr best_index \<Rightarrow>
                      (let best_distance = distances ! best_index in
                       if best_distance \<le> tolerance s then
                         (case py_truediv best_distance (tolerance s) of
                            Inl e \<Rightarrow> Inl e
                          | Inr ratio \<Rightarrow>
                              (let conf = max 0 (min 1 (1 - ratio)) in
                               case py_index (names s) best_index of
                                 Inl e \<Rightarrow> Inl e
                               | Inr nm \<Rightarrow> Inr \<lparr>name = nm, confidence = conf\<rparr>))
                       else Inr unknown_result))))"

subsection \<open>The legacy recognizer: \<^verbatim>\<open>SimpleFaceRecognizer.recognize\<close>\<close>

text \<open>
  \<^verbatim>\<open>face_recognition.face_distance\<close> (library): an empty array for an empty list of
  known encodings, else the row norms of \<^verbatim>\<open>face_encodings - face_to_compare\<close>.
\<close>

definition face_distance :: "embedding list \<Rightarrow> embedding \<Rightarrow> error + real list" where
  "face_distance face_encodings face_to_compare =
     (if face_encodings = [] then Inr []
      else
        case np_stack face_encodings of
          Inl e \<Rightarrow> Inl e
        | Inr arr \<Rightarrow>
            (case np_sub arr face_to_compare of
               Inl e \<Rightarrow> Inl e
             | Inr diff \<Rightarrow> Inr (np_linalg_norm diff)))"

text \<open>The loop \<^verbatim>\<open>for enc in encodings\<close> of \<^verbatim>\<open>recognize\<close>.\<close>

fun recognize_loop :: "SimpleFaceRecognizer \<Rightarrow> embedding list \<Rightarrow> error + RecognitionResult list" where
  "recognize_loop s [] = Inr []"
| "recognize_loop s (enc # rest) =
     (case face_distance (SimpleFaceRecognizer.encodings s) enc of
        Inl e \<Rightarrow> Inl e
      | Inr distances \<Rightarrow>
          (case np_argmin distances of
             Inl e \<Rightarrow> Inl e
           | Inr best_index \<Rightarrow>
               (let best_distance = distances ! best_index in
                case
                  (if best_distance \<le> SimpleFaceRecognizer.tolerance s then
                     (case py_truediv best_distance (SimpleFaceRecognizer.tolerance s) of
                        Inl e \<Rightarrow> Inl e
                      | Inr ratio \<Rightarrow>
                          (let conf = max 0 (min 1 (1 - ratio)) in
                           case py_index (SimpleFaceRecognizer.names s) best_index of
                             Inl e \<Rightarrow> Inl e
                           | Inr nm \<Rightarrow> Inr \<lparr>name = nm, confidence = conf\<rparr>))
                   else Inr unknown_result)
                of
                  Inl e \<Rightarrow> Inl e
                | Inr r \<Rightarrow>
                    (case recognize_loop s rest of
                       Inl e \<Rightarrow> Inl e
                     | Inr results \<Rightarrow> Inr (r # results)))))"

text \<open>
  \<^verbatim>\<open>recognize\<close>; \<open>face_encodings\<close> is the library call
  \<^verbatim>\<open>face_recognition.face_encodings(frame_rgb, face_locations)\<close>, a parameter.
\<close>

definition recognize ::
  "('img \<Rightarrow> box4 list \<Rightarrow> embedding list) \<Rightarrow> SimpleFaceRecognizer \<Rightarrow> 'img \<Rightarrow> box4 list
     \<Rightarrow> error + RecognitionResult list" where
  "recognize face_encodings s frame_rgb face_locations =
     (if SimpleFaceRecognizer.encodings s = [] then
        Inr (map (\<lambda>_. unknown_result) face_locations)
      else
        case recognize_loop s (face_encodings frame_rgb face_locations) of
          Inl e \<Rightarrow> Inl e
        | Inr results \<Rightarrow>
            Inr (if length results < length face_locations
                 then results @ replicate (length face_locations - length results) unknown_result
                 else results))"

subsection \<open>Gallery load: \<^verbatim>\<open>InsightFaceService._load_known_faces\<close>\<close>

text \<open>
  The part of the file system the load reads. A file carries what \<^verbatim>\<open>cv2.imread\<close>
  returns for it (\<open>None\<close> when it cannot be decoded); a directory lists its entries in the
  order \<^verbatim>\<open>iterdir\<close> and \<^verbatim>\<open>glob\<close> yield them. The argument of the load is what
  \<^verbatim>\<open>known_faces_dir\<close> resolves to: \<open>None\<close> when the path does not exist.
\<close>

datatype 'img node = File "'img option" | Dir "(string \<times> 'img node) list"

definition cv2_imread :: "'img node \<Rightarrow> 'img option" where
  "cv2_imread nd = (case nd of File content \<Rightarrow> content | Dir _ \<Rightarrow> None)"

text \<open>\<^verbatim>\<open>person_dir.glob("*.jpg")\<close>: the entries whose name ends in ".jpg".\<close>

definition glob_jpg :: "(string \<times> 'img node) list \<Rightarrow> (string \<times> 'img node) list" where
  "glob_jpg entries = filter (\<lambda>entry. suffix ''.jpg'' (fst entry)) entries"

definition area :: "Face \<Rightarrow> real" where
  "area face = (case bbox face of (x1, y1, x2, y2) \<Rightarrow> (x2 - x1) * (y2 - y1))"

text \<open>Python's \<^verbatim>\<open>max(xs, key=f)\<close>: the first element with the largest key.\<close>

fun py_max_scan :: "('a \<Rightarrow> real) \<Rightarrow> 'a \<Rightarrow> 'a list \<Rightarrow> 'a" where
  "py_max_scan key best [] = best"
| "py_max_scan key best (x # xs) =
     (if key x > key best then py_max_scan key x xs else py_max_scan key best xs)"

definition compute_embedding_for_image :: "('img \<Rightarrow> Face list) \<Rightarrow> 'img \<Rightarrow> embedding option" where
  "compute_embedding_for_image app image_bgr =
     (case app image_bgr of
        [] \<Rightarrow> None
      | f # fs \<Rightarrow> Some (embedding (py_max_scan area f fs)))"

text \<open>The inner loop \<^verbatim>\<open>for image_path in person_dir.glob("*.jpg")\<close>.\<close>

fun load_images ::
  "('img \<Rightarrow> Face list) \<Rightarrow> string \<Rightarrow> (string \<times> 'img node) list \<Rightarrow> InsightFaceService
     \<Rightarrow> InsightFaceService" where
  "load_images app nm [] s = s"
| "load_images app nm (image_path # rest) s =
     (case cv2_imread (snd image_path) of
        None \<Rightarrow> load_images app nm rest s
      | Some img \<Rightarrow>
          (case compute_embedding_for_image app img of
             None \<Rightarrow> load_images app nm rest s
           | Some emb \<Rightarrow>
               load_images app nm rest
                 (s\<lparr>encodings := encodings s @ [emb], names := names s @ [nm]\<rparr>)))"

text \<open>The outer loop \<^verbatim>\<open>for person_dir in self.known_faces_dir.iterdir()\<close>.\<close>

fun load_persons ::
  "('img \<Rightarrow> Face list) \<Rightarrow> (string \<times> 'img node) list \<Rightarrow> InsightFaceService
     \<Rightarrow> InsightFaceService" where
  "load_persons app [] s = s"
| "load_persons app (person_dir # rest) s =
     (case snd person_dir of
        File _ \<Rightarrow> load_persons app rest s
      | Dir files \<Rightarrow>
          load_persons app rest (load_images app (fst person_dir) (glob_jpg files) s))"

definition load_known_faces ::
  "('img \<Rightarrow> Face list) \<Rightarrow> 'img node option \<Rightarrow> InsightFaceService \<Rightarrow> error + InsightFaceService" where
  "load_known_faces app known_faces_dir s =
     (case known_faces_dir of
        None \<Rightarrow> Inr s
      | Some (File _) \<Rightarrow> Inl NotADirectoryError
      | Some (Dir persons) \<Rightarrow> Inr (load_persons app persons s))"

text \<open>
  \<^verbatim>\<open>__post_init__\<close>: both lists start empty (\<^verbatim>\<open>default_factory=list\<close>), then the
  gallery is loaded.
\<close>

definition post_init ::
  "('img \<Rightarrow> Face list) \<Rightarrow> 'img node option \<Rightarrow> real \<Rightarrow> error + InsightFaceService" where
  "post_init app known_faces_dir tol =
     load_known_faces app known_faces_dir \<lparr>tolerance = tol, encodings = [], names = []\<rparr>"

subsection \<open>Frame processing: \<^verbatim>\<open>analyze\<close> and \<^verbatim>\<open>FaceController.process_frame\<close>\<close>

text \<open>\<^verbatim>\<open>bbox.astype(int)\<close> truncates towards zero.\<close>

definition astype_int :: "real \<Rightarrow> int" where
  "astype_int x = (if 0 \<le> x then \<lfloor>x\<rfloor> else \<lceil>x\<rceil>)"

definition face_box :: "Face \<Rightarrow> box4" where
  "face_box face =
     (case bbox face of
        (x1, y1, x2, y2) \<Rightarrow> (astype_int y1, astype_int x2, astype_int y2, astype_int x1))"

fun analyze_loop :: "InsightFaceService \<Rightarrow> Face list \<Rightarrow> error + InsightFaceRecognizedFace list" where
  "analyze_loop s [] = Inr []"
| "analyze_loop s (face # faces) =
     (case match_embedding s (embedding face) of
        Inl e \<Rightarrow> Inl e
      | Inr recog \<Rightarrow>
          (case analyze_loop s faces of
             Inl e \<Rightarrow> Inl e
           | Inr results \<Rightarrow> Inr (\<lparr>box = face_box face, result = recog\<rparr> # results)))"

definition analyze ::
  "('img \<Rightarrow> Face list) \<Rightarrow> InsightFaceService \<Rightarrow> 'img \<Rightarrow> error + InsightFaceRecognizedFace list" where
  "analyze app s frame_bgr = analyze_loop s (app frame_bgr)"

definition overlay_of :: "InsightFaceRecognizedFace \<Rightarrow> VideoOverlayFace" where
  "overlay_of face =
     \<lparr>VideoOverlayFace.box = box face, label = name (result face),
      VideoOverlayFace.confidence = confidence (result face)\<rparr>"

definition process_frame ::
  "('img \<Rightarrow> Face list) \<Rightarrow> InsightFaceService \<Rightarrow> 'img \<Rightarrow> error + VideoOverlayFace list" where
  "process_frame app s frame_bgr =
     (case analyze app s frame_bgr of
        Inl e \<Rightarrow> Inl e
      | Inr faces \<Rightarrow> Inr (map overlay_of faces))"

subsection \<open>Frame-rate measurement: \<^verbatim>\<open>measure_fps\<close>\<close>

text \<open>
  One turn of the generator's \<^verbatim>\<open>while True\<close> loop, from the stored \<open>last_time\<close> and
  the reading \<open>current_time\<close> of \<^verbatim>\<open>perf_counter\<close>: the pair it yields and the new
  \<open>last_time\<close>.
\<close>

definition measure_fps_step :: "real \<Rightarrow> real \<Rightarrow> error + ((real \<times> real) \<times> real)" where
  "measure_fps_step last_time current_time =
     (let delta = current_time - last_time in
      case (if delta > 0 then py_truediv 1 delta else Inr 0) of
        Inl e \<Rightarrow> Inl e
      | Inr fps \<Rightarrow> Inr ((delta, fps), current_time))"

fun measure_fps_loop :: "real \<Rightarrow> real list \<Rightarrow> error + (real \<times> real) list" where
  "measure_fps_loop last_time [] = Inr []"
| "measure_fps_loop last_time (current_time # clock) =
     (case measure_fps_step last_time current_time of
        Inl e \<Rightarrow> Inl e
      | Inr step \<Rightarrow>
          (case measure_fps_loop (snd step) clock of
             Inl e \<Rightarrow> Inl e
           | Inr yields \<Rightarrow> Inr (fst step # yields)))"

text \<open>
  The pairs the generator yields while \<^verbatim>\<open>perf_counter\<close> returns the readings of
  \<open>clock\<close> in turn: the first reading initialises \<open>last_time\<close>, every later one is the
  \<open>current_time\<close> of one turn.
\<close>

definition measure_fps :: "real list \<Rightarrow> error + (real \<times> real) list" where
  "measure_fps clock =
     (case clock of [] \<Rightarrow> Inr [] | t0 # rest \<Rightarrow> measure_fps_loop t0 rest)"

subsection \<open>The main loop of \<^verbatim>\<open>run\<close>\<close>

text \<open>
  The camera, the window and the clock are outside the program. What they answer in one
  iteration is an \<open>iteration_env\<close>; each call either returns or raises, and an interrupt
  from outside is a call that raises \<open>KeyboardInterrupt\<close>. The calls the loop makes are
  recorded as a list of events.
\<close>

datatype exn = KeyboardInterrupt | PyError error | ExternalError

datatype 'a outcome = Returns 'a | Raises exn

datatype level = INFO | WARNING

datatype 'img event =
    Log level string
  | CameraRead
  | ProcessFrame 'img
  | ShowFrame 'img "VideoOverlayFace list" real
  | WaitKey
  | ViewClose
  | CameraRelease

record 'img iteration_env =
  perf_counter :: real
  camera_read :: "(bool \<times> 'img) outcome"
  show_frame :: "unit outcome"
  wait_key :: "int outcome"

text \<open>
  \<^verbatim>\<open>VideoView.process_events\<close> on the value of \<^verbatim>\<open>cv2.waitKey(1)\<close>: false for ESC
  (27) and for "q" (113).
\<close>

definition process_events :: "int \<Rightarrow> bool" where
  "process_events k = (let key = k AND 255 in if key = 27 \<or> key = 113 then False else True)"

datatype flow = Continue | Break | Raised exn

text \<open>The body of \<^verbatim>\<open>for delta, fps in fps_gen\<close> (lines 90 to 100).\<close>

definition loop_body ::
  "('img \<Rightarrow> Face list) \<Rightarrow> InsightFaceService \<Rightarrow> real \<Rightarrow> 'img iteration_env
     \<Rightarrow> 'img event list \<times> flow" where
  "loop_body app service fps env =
     (case camera_read env of
        Raises x \<Rightarrow> ([CameraRead], Raised x)
      | Returns got \<Rightarrow>
          (let success = fst got; frame = snd got in
           if \<not> success then
             ([CameraRead, Log WARNING ''Failed to read frame from camera''], Continue)
           else
             case process_frame app service frame of
               Inl e \<Rightarrow> ([CameraRead, ProcessFrame frame], Raised (PyError e))
             | Inr overlays \<Rightarrow>
                 (case show_frame env of
                    Raises x \<Rightarrow>
                      ([CameraRead, ProcessFrame frame, ShowFrame frame overlays fps], Raised x)
                  | Returns _ \<Rightarrow>
                      (case wait_key env of
                         Raises x \<Rightarrow>
                           ([CameraRead, ProcessFrame frame, ShowFrame frame overlays fps,
                             WaitKey], Raised x)
                       | Returns k \<Rightarrow>
                           if \<not> process_events k then
                             ([CameraRead, ProcessFrame frame, ShowFrame frame overlays fps,
                               WaitKey, Log INFO ''User requested shutdown''], Break)
                           else
                             ([CameraRead, ProcessFrame frame, ShowFrame frame overlays fps,
                               WaitKey], Continue)))))"

text \<open>
  The loop over the environments of the successive iterations. When the list is used up
  the loop has not exited: the flow is \<open>Continue\<close>.
\<close>

fun main_loop ::
  "('img \<Rightarrow> Face list) \<Rightarrow> InsightFaceService \<Rightarrow> real \<Rightarrow> 'img iteration_env list
     \<Rightarrow> 'img event list \<times> flow" where
  "main_loop app service last_time [] = ([], Continue)"
| "main_loop app service last_time (env # envs) =
     (case measure_fps_step last_time (perf_counter env) of
        Inl e \<Rightarrow> ([], Raised (PyError e))
      | Inr step \<Rightarrow>
          (case loop_body app service (snd (fst step)) env of
             (evs, Continue) \<Rightarrow>
               (case main_loop app service (snd step) envs of
                  (evs', fl) \<Rightarrow> (evs @ evs', fl))
           | (evs, Break) \<Rightarrow> (evs, Break)
           | (evs, Raised x) \<Rightarrow> (evs, Raised x)))"

datatype status = Running | Returned | Propagated exn

text \<open>
  What the window and the camera answer during the shutdown: \<^verbatim>\<open>main_view.close()\<close>
  and \<^verbatim>\<open>camera_controller.shutdown()\<close> each either return or raise (an interrupt
  arriving during the call is \<open>Raises KeyboardInterrupt\<close>).
\<close>

record shutdown_env =
  view_close :: "unit outcome"
  camera_release :: "unit outcome"

text \<open>
  The \<^verbatim>\<open>finally\<close> clause of \<^verbatim>\<open>run\<close> (lines 103 to 106): it logs, calls
  \<^verbatim>\<open>main_view.close()\<close> and then \<^verbatim>\<open>camera_controller.shutdown()\<close>. The two
  calls are in sequence with no handler around either, so an exception of the first leaves
  the clause before the second is made. The result is the events of the clause and the
  exception it raised, if any.
\<close>

definition finally_clause :: "shutdown_env \<Rightarrow> 'img event list \<times> exn option" where
  "finally_clause sd =
     (case view_close sd of
        Raises x \<Rightarrow> ([Log INFO ''Shutting down'', ViewClose], Some x)
      | Returns _ \<Rightarrow>
          (case camera_release sd of
             Raises x \<Rightarrow> ([Log INFO ''Shutting down'', ViewClose, CameraRelease], Some x)
           | Returns _ \<Rightarrow> ([Log INFO ''Shutting down'', ViewClose, CameraRelease], None)))"

text \<open>
  Leaving the \<^verbatim>\<open>try\<close> statement with the events so far and the exception still
  pending, if any: the \<^verbatim>\<open>finally\<close> clause runs; an exception it raises replaces the
  pending one and propagates, otherwise the pending one propagates, otherwise \<^verbatim>\<open>run\<close>
  returns.
\<close>

definition leave_try ::
  "shutdown_env \<Rightarrow> 'img event list \<Rightarrow> exn option \<Rightarrow> 'img event list \<times> status" where
  "leave_try sd evs pending =
     (case finally_clause sd of
        (fevs, Some x) \<Rightarrow> (evs @ fevs, Propagated x)
      | (fevs, None) \<Rightarrow>
          (evs @ fevs, case pending of None \<Rightarrow> Returned | Some x \<Rightarrow> Propagated x))"

text \<open>
  The \<^verbatim>\<open>try\<close> statement of \<^verbatim>\<open>run\<close> (lines 88 to 106), after the set-up: the
  \<^verbatim>\<open>except KeyboardInterrupt\<close> clause logs and swallows an interrupt of the loop, any
  other exception of the loop stays pending, and the \<^verbatim>\<open>finally\<close> clause runs on
  every way out.
\<close>

definition run ::
  "('img \<Rightarrow> Face list) \<Rightarrow> InsightFaceService \<Rightarrow> real \<Rightarrow> 'img iteration_env list
     \<Rightarrow> shutdown_env \<Rightarrow> 'img event list \<times> status" where
  "run app service t0 envs sd =
     (case main_loop app service t0 envs of
        (evs, Continue) \<Rightarrow> (evs, Running)
      | (evs, Break) \<Rightarrow> leave_try sd evs None
      | (evs, Raised KeyboardInterrupt) \<Rightarrow>
          leave_try sd (evs @ [Log INFO ''Interrupted by user'']) None
      | (evs, Raised (PyError e)) \<Rightarrow> leave_try sd evs (Some (PyError e))
      | (evs, Raised ExternalError) \<Rightarrow> leave_try sd evs (Some ExternalError))"

subsection \<open>Vocabulary of the statements\<close>

text \<open>
  The Euclidean distance between two vectors and the clamp of a value to an interval, as the
  specification uses them. The code computes neither by these definitions: the lemmas below
  relate them to what the code computes.
\<close>

definition euclidean_distance :: "embedding \<Rightarrow> embedding \<Rightarrow> real" where
  "euclidean_distance a b = sqrt (\<Sum>i<length a. (a ! i - b ! i)\<^sup>2)"

definition clamp :: "real \<Rightarrow> real \<Rightarrow> real \<Rightarrow> real" where
  "clamp x lo hi = max lo (min hi x)"

text \<open>
  The position of the first occurrence of an event in a trace, and whether one event first
  occurs before another.
\<close>

definition first_index :: "'a \<Rightarrow> 'a list \<Rightarrow> nat" where
  "first_index x xs = length (takeWhile (\<lambda>y. y \<noteq> x) xs)"

definition occurs_before :: "'a \<Rightarrow> 'a \<Rightarrow> 'a list \<Rightarrow> bool" where
  "occurs_before a b xs = (a \<in> set xs \<and> b \<in> set xs \<and> first_index a xs < first_index b xs)"

subsection \<open>Concrete inputs\<close>

text \<open>
  Small inputs on which the theorems below are instantiated: images are numbered, the
  detector \<open>one_face\<close> finds one face whose embedding is the image's number, the detector
  \<open>two_faces\<close> finds two faces in every frame, and \<open>alice_service\<close> knows one face.
\<close>

definition one_face :: "nat \<Rightarrow> Face list" where
  "one_face img = [\<lparr>bbox = (10, 20, 110, 140), embedding = [real img]\<rparr>]"

definition two_faces :: "nat \<Rightarrow> Face list" where
  "two_faces img =
     [\<lparr>bbox = (21 / 2, 20, 110, 1409 / 10), embedding = [0]\<rparr>,
      \<lparr>bbox = (- 7 / 2, 2, 50, 60), embedding = [5]\<rparr>]"

definition alice_service :: InsightFaceService where
  "alice_service = \<lparr>tolerance = 8 / 10, encodings = [[0]], names = [''Alice'']\<rparr>"

text \<open>
  Environments of one iteration, at clock reading \<open>t\<close>: a frame is read and no key is
  pressed; the read fails; "q" is pressed; an interrupt arrives during the read; the window
  system fails while the frame is shown. The detector \<open>no_faces\<close> finds nothing.
\<close>

definition no_faces :: "nat \<Rightarrow> Face list" where
  "no_faces img = []"

definition ok_env :: "real \<Rightarrow> nat \<Rightarrow> nat iteration_env" where
  "ok_env t frame =
     \<lparr>perf_counter = t, camera_read = Returns (True, frame), show_frame = Returns (),
      wait_key = Returns (- 1)\<rparr>"

definition failed_read_env :: "real \<Rightarrow> nat iteration_env" where
  "failed_read_env t =
     \<lparr>perf_counter = t, camera_read = Returns (False, 0), show_frame = Returns (),
      wait_key = Returns (- 1)\<rparr>"

definition quit_env :: "real \<Rightarrow> nat \<Rightarrow> nat iteration_env" where
  "quit_env t frame =
     \<lparr>perf_counter = t, camera_read = Returns (True, frame), show_frame = Returns (),
      wait_key = Returns 113\<rparr>"

definition interrupt_env :: "real \<Rightarrow> nat iteration_env" where
  "interrupt_env t =
     \<lparr>perf_counter = t, camera_read = Raises KeyboardInterrupt, show_frame = Returns (),
      wait_key = Returns (- 1)\<rparr>"

definition render_error_env :: "real \<Rightarrow> nat \<Rightarrow> nat iteration_env" where
  "render_error_env t frame =
     \<lparr>perf_counter = t, camera_read = Returns (True, frame), show_frame = Raises ExternalError,
      wait_key = Returns (- 1)\<rparr>"

text \<open>Shutdowns: both calls return; the close of the view raises.\<close>

definition clean_shutdown :: shutdown_env where
  "clean_shutdown = \<lparr>view_close = Returns (), camera_release = Returns ()\<rparr>"

definition close_fails_shutdown :: shutdown_env where
  "close_fails_shutdown = \<lparr>view_close = Raises ExternalError, camera_release = Returns ()\<rparr>"

section \<open>Properties\<close>

subsection \<open>The scan of \<^verbatim>\<open>np.argmin\<close>\<close>

lemma argmin_scan_first_min:
  "bi < i \<Longrightarrow> length L = i + length xs \<Longrightarrow> drop i L = xs \<Longrightarrow> L ! bi = bv
   \<Longrightarrow> (\<forall>j<i. bv \<le> L ! j) \<Longrightarrow> (\<forall>j<bi. bv < L ! j)
   \<Longrightarrow> argmin_scan bi bv i xs < length L
       \<and> (\<forall>j<length L. L ! argmin_scan bi bv i xs \<le> L ! j)
       \<and> (\<forall>j<argmin_scan bi bv i xs. L ! argmin_scan bi bv i xs < L ! j)"
proof (induction xs arbitrary: bi bv i)
  case Nil
  then show ?case by simp
next
  case (Cons x xs)
  have xi: "L ! i = x"
    using Cons.prems(3) by (metis nth_via_drop)
  have dr: "drop (Suc i) L = xs"
    using Cons.prems(3) by (metis drop_Suc tl_drop list.sel(3))
  show ?case
  proof (cases "x < bv")
    case True
    have a: "\<forall>j<Suc i. x \<le> L ! j"
      using True Cons.prems(5) xi by (auto simp: less_Suc_eq intro: less_imp_le order_trans)
    have b: "\<forall>j<i. x < L ! j"
      using True Cons.prems(5) by (auto intro: less_le_trans)
    from Cons.IH[of i "Suc i" x] Cons.prems(2) dr xi a b True
    show ?thesis by simp
  next
    case False
    have a: "\<forall>j<Suc i. bv \<le> L ! j"
      using False Cons.prems(5) xi by (auto simp: less_Suc_eq)
    from Cons.IH[of bi "Suc i" bv] Cons.prems dr a False
    show ?thesis by simp
  qed
qed

lemma np_argmin_first_min:
  assumes "ds \<noteq> []"
  shows "\<exists>i. np_argmin ds = Inr i \<and> i < length ds
           \<and> (\<forall>j<length ds. ds ! i \<le> ds ! j) \<and> (\<forall>j<i. ds ! i < ds ! j)"
proof -
  obtain d rest where ds: "ds = d # rest" using assms by (cases ds) auto
  have "argmin_scan 0 d 1 rest < length ds
       \<and> (\<forall>j<length ds. ds ! argmin_scan 0 d 1 rest \<le> ds ! j)
       \<and> (\<forall>j<argmin_scan 0 d 1 rest. ds ! argmin_scan 0 d 1 rest < ds ! j)"
    by (rule argmin_scan_first_min) (simp_all add: ds)
  then show ?thesis by (simp add: np_argmin_def ds)
qed

lemma np_argmin_bound: "np_argmin ds = Inr i \<Longrightarrow> i < length ds"
proof -
  assume a: "np_argmin ds = Inr i"
  then have "ds \<noteq> []" by (auto simp: np_argmin_def)
  from np_argmin_first_min[OF this] a show ?thesis by auto
qed

subsection \<open>Distances when the dimensions agree\<close>

lemma np_stack_same_dim:
  "arrs \<noteq> [] \<Longrightarrow> \<forall>e\<in>set arrs. length e = n \<Longrightarrow> np_stack arrs = Inr arrs"
  by (cases arrs) (auto simp: np_stack_def list_all_iff)

lemma np_sub_same_dim:
  "\<forall>e\<in>set arrs. length e = length q
   \<Longrightarrow> np_sub arrs q = Inr (map (\<lambda>row. map2 (\<lambda>x y. x - y) row q) arrs)"
  by (induction arrs) (auto simp: row_sub_def)

lemma np_sub_length: "np_sub arrs q = Inr diff \<Longrightarrow> length diff = length arrs"
  by (induction arrs arbitrary: diff) (auto split: sum.splits)

lemma l2norm_diff:
  "length a = length b \<Longrightarrow> l2norm (map2 (\<lambda>x y. x - y) a b) = euclidean_distance a b"
proof -
  assume len: "length a = length b"
  have "sum_list (map (\<lambda>x. x\<^sup>2) (map2 (\<lambda>x y. x - y) a b))
        = (\<Sum>i<length a. (a ! i - b ! i)\<^sup>2)"
    using len by (simp add: sum_list_sum_nth atLeast0LessThan)
  then show ?thesis by (simp add: l2norm_def euclidean_distance_def)
qed

lemma distances_same_dim:
  assumes "\<forall>e\<in>set arrs. length e = length q"
  shows "np_linalg_norm (map (\<lambda>row. map2 (\<lambda>x y. x - y) row q) arrs)
         = map (\<lambda>e. euclidean_distance e q) arrs"
  using assms by (simp add: np_linalg_norm_def l2norm_diff)

lemma euclidean_distance_single: "euclidean_distance [a] [b] = \<bar>a - b\<bar>"
  by (simp add: euclidean_distance_def)

subsection \<open>What \<^verbatim>\<open>_match_embedding\<close> returns on a non-empty gallery\<close>

text \<open>
  With all stored encodings of the query's dimension, the code picks the first index of
  least distance; its result then depends on the threshold, on whether the threshold is
  zero, and on whether the list of names reaches that index.
\<close>

lemma match_embedding_best:
  assumes ne: "encodings s \<noteq> []"
    and dims: "\<forall>e\<in>set (encodings s). length e = length q"
  shows "\<exists>i<length (encodings s).
           (\<forall>j<length (encodings s).
              euclidean_distance (encodings s ! i) q \<le> euclidean_distance (encodings s ! j) q)
         \<and> (\<forall>j<i. euclidean_distance (encodings s ! i) q < euclidean_distance (encodings s ! j) q)
         \<and> match_embedding s q =
             (if euclidean_distance (encodings s ! i) q \<le> tolerance s then
                (if tolerance s = 0 then Inl ZeroDivisionError
                 else if i < length (names s) then
                   Inr \<lparr>name = names s ! i,
                        confidence =
                          max 0 (min 1 (1 - euclidean_distance (encodings s ! i) q / tolerance s))\<rparr>
                 else Inl IndexError)
              else Inr unknown_result)"
proof -
  let ?ds = "map (\<lambda>e. euclidean_distance e q) (encodings s)"
  have "?ds \<noteq> []" using ne by simp
  from np_argmin_first_min[OF this]
  obtain i where i: "np_argmin ?ds = Inr i" "i < length ?ds"
    "\<forall>j<length ?ds. ?ds ! i \<le> ?ds ! j" "\<forall>j<i. ?ds ! i < ?ds ! j"
    by blast
  have il: "i < length (encodings s)" using i(2) by simp
  have m: "match_embedding s q =
             (if euclidean_distance (encodings s ! i) q \<le> tolerance s then
                (if tolerance s = 0 then Inl ZeroDivisionError
                 else if i < length (names s) then
                   Inr \<lparr>name = names s ! i,
                        confidence =
                          max 0 (min 1 (1 - euclidean_distance (encodings s ! i) q / tolerance s))\<rparr>
                 else Inl IndexError)
              else Inr unknown_result)"
    using ne il i(1)
    by (simp add: match_embedding_def np_stack_same_dim[OF ne dims] np_sub_same_dim[OF dims]
        distances_same_dim[OF dims] py_truediv_def py_index_def Let_def)
  have a: "\<forall>j<length (encodings s).
              euclidean_distance (encodings s ! i) q \<le> euclidean_distance (encodings s ! j) q"
    using i(3) il by simp
  have b: "\<forall>j<i. euclidean_distance (encodings s ! i) q < euclidean_distance (encodings s ! j) q"
    using i(4) il by simp
  show ?thesis using il a b m by blast
qed

text \<open>
  So the match returns a result whenever the names are paired with the encodings, the
  dimensions agree and the threshold is not zero.
\<close>

lemma match_embedding_returns:
  assumes len: "length (names s) = length (encodings s)"
    and dims: "\<forall>e\<in>set (encodings s). length e = length q"
    and tol: "tolerance s \<noteq> 0"
  shows "\<exists>r. match_embedding s q = Inr r"
proof (cases "encodings s = []")
  case True
  then show ?thesis by (simp add: match_embedding_def)
next
  case False
  from match_embedding_best[OF False dims] len tol show ?thesis by auto
qed

subsection \<open>The gallery load keeps the two lists in step\<close>

lemma load_images_lengths:
  "length (encodings s) = length (names s)
   \<Longrightarrow> length (encodings (load_images app nm files s)) = length (names (load_images app nm files s))"
  by (induction files arbitrary: s) (auto split: option.splits)

lemma load_persons_lengths:
  "length (encodings s) = length (names s)
   \<Longrightarrow> length (encodings (load_persons app persons s)) = length (names (load_persons app persons s))"
  by (induction persons arbitrary: s) (auto split: node.splits simp: load_images_lengths)

lemma load_known_faces_lengths:
  "load_known_faces app known_faces_dir s = Inr s'
   \<Longrightarrow> length (encodings s) = length (names s)
   \<Longrightarrow> length (encodings s') = length (names s')"
  by (auto simp: load_known_faces_def load_persons_lengths split: option.splits node.splits)

lemma np_stack_error: "np_stack arrs = Inl e \<Longrightarrow> e = ValueError"
  by (auto simp: np_stack_def split: list.splits if_splits)

lemma np_stack_result: "np_stack arrs = Inr arr \<Longrightarrow> arr = arrs"
  by (auto simp: np_stack_def split: list.splits if_splits)

lemma np_sub_error: "np_sub arrs q = Inl e \<Longrightarrow> e = ValueError"
  by (induction arrs) (auto simp: row_sub_def split: sum.splits if_splits)

lemma np_argmin_error: "np_argmin ds = Inl e \<Longrightarrow> e = ValueError"
  by (auto simp: np_argmin_def split: list.splits)

lemma match_embedding_no_index_error:
  assumes len: "length (encodings s) = length (names s)"
  shows "match_embedding s emb \<noteq> Inl IndexError"
proof (cases "encodings s = []")
  case True
  then show ?thesis by (simp add: match_embedding_def)
next
  case ne: False
  show ?thesis
  proof (cases "np_stack (encodings s)")
    case (Inl e)
    then show ?thesis using ne np_stack_error[OF Inl] by (simp add: match_embedding_def)
  next
    case (Inr arr)
    note st = this
    show ?thesis
    proof (cases "np_sub arr emb")
      case (Inl e)
      then show ?thesis using ne st np_sub_error[OF Inl] by (simp add: match_embedding_def)
    next
      case (Inr diff)
      note sb = this
      show ?thesis
      proof (cases "np_argmin (np_linalg_norm diff)")
        case (Inl e)
        then show ?thesis
          using ne st sb np_argmin_error[OF Inl] by (simp add: match_embedding_def)
      next
        case (Inr i)
        have "length diff = length (encodings s)"
          using np_sub_length[OF sb] np_stack_result[OF st] by simp
        moreover have "i < length (np_linalg_norm diff)" using np_argmin_bound[OF Inr] .
        ultimately have "i < length (names s)" using len by (simp add: np_linalg_norm_def)
        then show ?thesis
          using ne st sb Inr
          by (simp add: match_embedding_def Let_def py_index_def py_truediv_def)
      qed
    qed
  qed
qed

subsection \<open>The loop of \<^verbatim>\<open>analyze\<close>\<close>

lemma analyze_loop_results:
  "\<forall>face\<in>set faces. \<exists>r. match_embedding s (embedding face) = Inr r
   \<Longrightarrow> \<exists>results. analyze_loop s faces = Inr results \<and> length results = length faces
         \<and> (\<forall>i<length faces. box (results ! i) = face_box (faces ! i)
               \<and> match_embedding s (embedding (faces ! i)) = Inr (result (results ! i)))"
proof (induction faces)
  case Nil
  then show ?case by simp
next
  case (Cons face faces)
  from Cons.prems obtain r where r: "match_embedding s (embedding face) = Inr r" by auto
  from Cons obtain results where res: "analyze_loop s faces = Inr results"
    "length results = length faces"
    "\<forall>i<length faces. box (results ! i) = face_box (faces ! i)
               \<and> match_embedding s (embedding (faces ! i)) = Inr (result (results ! i))"
    by auto
  let ?rs = "\<lparr>box = face_box face, result = r\<rparr> # results"
  have "analyze_loop s (face # faces) = Inr ?rs" using r res(1) by simp
  moreover have "length ?rs = length (face # faces)" using res(2) by simp
  moreover have "\<forall>i<length (face # faces). box (?rs ! i) = face_box ((face # faces) ! i)
               \<and> match_embedding s (embedding ((face # faces) ! i)) = Inr (result (?rs ! i))"
    using r res(3) by (auto simp: nth_Cons split: nat.splits)
  ultimately show ?case by blast
qed

lemma match_alice_0: "match_embedding alice_service [0] = Inr \<lparr>name = ''Alice'', confidence = 1\<rparr>"
  by (simp add: alice_service_def match_embedding_def np_stack_def row_sub_def
      np_linalg_norm_def l2norm_def np_argmin_def py_truediv_def py_index_def)

lemma match_alice_5: "match_embedding alice_service [5] = Inr \<lparr>name = ''Unknown'', confidence = 0\<rparr>"
  by (simp add: alice_service_def match_embedding_def np_stack_def row_sub_def
      np_linalg_norm_def l2norm_def np_argmin_def py_truediv_def py_index_def unknown_result_def)

subsection \<open>The generator \<^verbatim>\<open>measure_fps\<close>\<close>

lemma measure_fps_step_eq:
  "measure_fps_step last_time current_time =
     Inr ((current_time - last_time,
           if current_time - last_time > 0 then 1 / (current_time - last_time) else 0),
          current_time)"
  by (simp add: measure_fps_step_def py_truediv_def Let_def)

lemma measure_fps_loop_eq:
  "measure_fps_loop t0 ts =
     Inr (map (\<lambda>k. let delta = (t0 # ts) ! Suc k - (t0 # ts) ! k
                   in (delta, if delta > 0 then 1 / delta else 0)) [0..<length ts])"
proof (induction ts arbitrary: t0)
  case Nil
  then show ?case by simp
next
  case (Cons t ts)
  show ?case
    by (simp add: measure_fps_step_eq Cons.IH map_upt_Suc Let_def del: upt_Suc)
qed

subsection \<open>The main loop\<close>

lemma process_events_no_key: "process_events (- 1)"
  by (simp add: process_events_def)

lemma process_events_q: "\<not> process_events 113"
  by (simp add: process_events_def)

lemma process_events_esc: "\<not> process_events 27"
  by (simp add: process_events_def)

lemma loop_body_keeps_resources:
  "ViewClose \<notin> set (fst (loop_body app service fps env))
   \<and> CameraRelease \<notin> set (fst (loop_body app service fps env))"
  by (simp add: loop_body_def Let_def split: outcome.splits sum.splits)

lemma main_loop_keeps_resources:
  "ViewClose \<notin> set (fst (main_loop app service last_time envs))
   \<and> CameraRelease \<notin> set (fst (main_loop app service last_time envs))"
proof (induction envs arbitrary: last_time)
  case Nil
  then show ?case by simp
next
  case (Cons env envs)
  let ?fps = "if perf_counter env - last_time > 0 then 1 / (perf_counter env - last_time) else 0"
  obtain evs fl where b: "loop_body app service ?fps env = (evs, fl)" by (cases "loop_body app service ?fps env")
  have k: "ViewClose \<notin> set evs \<and> CameraRelease \<notin> set evs"
    using loop_body_keeps_resources[of app service ?fps env] b by simp
  obtain evs' fl' where r: "main_loop app service (perf_counter env) envs = (evs', fl')"
    by (cases "main_loop app service (perf_counter env) envs")
  have k': "ViewClose \<notin> set evs' \<and> CameraRelease \<notin> set evs'"
    using Cons.IH[of "perf_counter env"] r by simp
  show ?case
    using b r k k' by (cases fl) (simp_all add: measure_fps_step_eq)
qed

lemma process_no_faces: "process_frame no_faces alice_service frame = Inr []"
  by (simp add: process_frame_def analyze_def no_faces_def)

lemma leave_try_trace:
  "\<exists>rest. fst (leave_try sd evs pending) = evs @ [Log INFO ''Shutting down'', ViewClose] @ rest
          \<and> ViewClose \<notin> set rest
          \<and> (view_close sd = Returns () \<longrightarrow> rest = [CameraRelease])
          \<and> snd (leave_try sd evs pending) \<noteq> Running"
  by (cases "view_close sd"; cases "camera_release sd"; cases pending)
     (simp_all add: leave_try_def finally_clause_def)

lemma run_quit:
  "run no_faces alice_service 0 [ok_env 1 7, quit_env 2 8] clean_shutdown =
    ([CameraRead, ProcessFrame 7, ShowFrame 7 [] 1, WaitKey,
      CameraRead, ProcessFrame 8, ShowFrame 8 [] 1, WaitKey, Log INFO ''User requested shutdown'',
      Log INFO ''Shutting down'', ViewClose, CameraRelease], Returned)"
  by (simp add: run_def measure_fps_step_eq loop_body_def ok_env_def quit_env_def process_no_faces
      process_events_no_key process_events_q leave_try_def finally_clause_def clean_shutdown_def)

lemma run_interrupt:
  "run no_faces alice_service 0 [ok_env 1 7, interrupt_env 2] clean_shutdown =
    ([CameraRead, ProcessFrame 7, ShowFrame 7 [] 1, WaitKey,
      CameraRead, Log INFO ''Interrupted by user'',
      Log INFO ''Shutting down'', ViewClose, CameraRelease], Returned)"
  by (simp add: run_def measure_fps_step_eq loop_body_def ok_env_def interrupt_env_def
      process_no_faces process_events_no_key leave_try_def finally_clause_def clean_shutdown_def)

lemma run_render_error:
  "run no_faces alice_service 0 [ok_env 1 7, render_error_env 2 8] clean_shutdown =
    ([CameraRead, ProcessFrame 7, ShowFrame 7 [] 1, WaitKey,
      CameraRead, ProcessFrame 8, ShowFrame 8 [] 1,
      Log INFO ''Shutting down'', ViewClose, CameraRelease], Propagated ExternalError)"
  by (simp add: run_def measure_fps_step_eq loop_body_def ok_env_def render_error_env_def
      process_no_faces process_events_no_key leave_try_def finally_clause_def clean_shutdown_def)

text \<open>
  When the window system fails while the frame is shown and fails again in the close of the
  view, the camera controller is never shut down.
\<close>

lemma run_render_error_close_fails:
  "run no_faces alice_service 0 [ok_env 1 7, render_error_env 2 8] close_fails_shutdown =
    ([CameraRead, ProcessFrame 7, ShowFrame 7 [] 1, WaitKey,
      CameraRead, ProcessFrame 8, ShowFrame 8 [] 1,
      Log INFO ''Shutting down'', ViewClose], Propagated ExternalError)"
  by (simp add: run_def measure_fps_step_eq loop_body_def ok_env_def render_error_env_def
      process_no_faces process_events_no_key leave_try_def finally_clause_def
      close_fails_shutdown_def)

subsection \<open>The claims\<close>


text \<open>
  C1: on a non-empty gallery whose entries pair a name with an encoding of the query's
  dimension, and for a threshold other than zero (the quotient \<open>d / t\<close> of the claim needs
  one), the code selects an entry at least Euclidean distance \<open>d\<close>; when \<open>d \<le> t\<close> it returns
  that entry's label with confidence \<open>clamp (1 - d / t) 0 1\<close>, and otherwise "Unknown" with
  confidence 0. With the single entry ("Alice", e_alice) and threshold 0.8, a query at
  distance 0.3 gives ("Alice", 0.625) and a query at distance 0.9 gives ("Unknown", 0).
\<close>

theorem match_embedding_nearest_within_threshold:
  assumes ne: "encodings s \<noteq> []"
    and len: "length (names s) = length (encodings s)"
    and dims: "\<forall>e\<in>set (encodings s). length e = length q"
    and tol: "tolerance s \<noteq> 0"
  shows "(\<exists>i<length (encodings s).
            (\<forall>j<length (encodings s).
               euclidean_distance (encodings s ! i) q \<le> euclidean_distance (encodings s ! j) q)
          \<and> match_embedding s q =
              (if euclidean_distance (encodings s ! i) q \<le> tolerance s then
                 Inr \<lparr>name = names s ! i,
                      confidence =
                        clamp (1 - euclidean_distance (encodings s ! i) q / tolerance s) 0 1\<rparr>
               else Inr \<lparr>name = ''Unknown'', confidence = 0\<rparr>))
       \<and> (encodings s = [e_alice] \<and> names s = [''Alice''] \<and> tolerance s = 8 / 10 \<longrightarrow>
            (euclidean_distance e_alice q = 3 / 10 \<longrightarrow>
               match_embedding s q = Inr \<lparr>name = ''Alice'', confidence = 625 / 1000\<rparr>)
          \<and> (euclidean_distance e_alice q = 9 / 10 \<longrightarrow>
               match_embedding s q = Inr \<lparr>name = ''Unknown'', confidence = 0\<rparr>))"
proof -
  from match_embedding_best[OF ne dims]
  obtain i where i: "i < length (encodings s)"
    "\<forall>j<length (encodings s).
       euclidean_distance (encodings s ! i) q \<le> euclidean_distance (encodings s ! j) q"
    and m: "match_embedding s q =
             (if euclidean_distance (encodings s ! i) q \<le> tolerance s then
                (if tolerance s = 0 then Inl ZeroDivisionError
                 else if i < length (names s) then
                   Inr \<lparr>name = names s ! i,
                        confidence =
                          max 0 (min 1 (1 - euclidean_distance (encodings s ! i) q / tolerance s))\<rparr>
                 else Inl IndexError)
              else Inr unknown_result)"
    by blast
  have m': "match_embedding s q =
              (if euclidean_distance (encodings s ! i) q \<le> tolerance s then
                 Inr \<lparr>name = names s ! i,
                      confidence =
                        clamp (1 - euclidean_distance (encodings s ! i) q / tolerance s) 0 1\<rparr>
               else Inr \<lparr>name = ''Unknown'', confidence = 0\<rparr>)"
    using m tol i(1) len by (simp add: clamp_def unknown_result_def)
  have general: "\<exists>i<length (encodings s).
            (\<forall>j<length (encodings s).
               euclidean_distance (encodings s ! i) q \<le> euclidean_distance (encodings s ! j) q)
          \<and> match_embedding s q =
              (if euclidean_distance (encodings s ! i) q \<le> tolerance s then
                 Inr \<lparr>name = names s ! i,
                      confidence =
                        clamp (1 - euclidean_distance (encodings s ! i) q / tolerance s) 0 1\<rparr>
               else Inr \<lparr>name = ''Unknown'', confidence = 0\<rparr>)"
    using i m' by blast
  have scenario: "encodings s = [e_alice] \<and> names s = [''Alice''] \<and> tolerance s = 8 / 10 \<longrightarrow>
            (euclidean_distance e_alice q = 3 / 10 \<longrightarrow>
               match_embedding s q = Inr \<lparr>name = ''Alice'', confidence = 625 / 1000\<rparr>)
          \<and> (euclidean_distance e_alice q = 9 / 10 \<longrightarrow>
               match_embedding s q = Inr \<lparr>name = ''Unknown'', confidence = 0\<rparr>)"
  proof (intro impI)
    assume one: "encodings s = [e_alice] \<and> names s = [''Alice''] \<and> tolerance s = 8 / 10"
    then have i0: "i = 0" using i(1) by simp
    have e: "encodings s ! i = e_alice" "names s ! i = ''Alice''" "tolerance s = 8 / 10"
      using one i0 by simp_all
    note m2 = m'[unfolded e]
    show "(euclidean_distance e_alice q = 3 / 10 \<longrightarrow>
               match_embedding s q = Inr \<lparr>name = ''Alice'', confidence = 625 / 1000\<rparr>)
          \<and> (euclidean_distance e_alice q = 9 / 10 \<longrightarrow>
               match_embedding s q = Inr \<lparr>name = ''Unknown'', confidence = 0\<rparr>)"
    proof (intro conjI impI)
      assume d: "euclidean_distance e_alice q = 3 / 10"
      show "match_embedding s q = Inr \<lparr>name = ''Alice'', confidence = 625 / 1000\<rparr>"
        unfolding m2 d by (simp add: clamp_def)
    next
      assume d: "euclidean_distance e_alice q = 9 / 10"
      show "match_embedding s q = Inr \<lparr>name = ''Unknown'', confidence = 0\<rparr>"
        unfolding m2 d by simp
    qed
  qed
  show ?thesis using general scenario by blast
qed

theorem match_embedding_nearest_within_threshold_witness:
  "match_embedding \<lparr>tolerance = 8 / 10, encodings = [[0]], names = [''Alice'']\<rparr> [3 / 10]
     = Inr \<lparr>name = ''Alice'', confidence = 625 / 1000\<rparr>
   \<and> match_embedding \<lparr>tolerance = 8 / 10, encodings = [[0]], names = [''Alice'']\<rparr> [9 / 10]
     = Inr \<lparr>name = ''Unknown'', confidence = 0\<rparr>"
  using match_embedding_nearest_within_threshold
          [of "\<lparr>tolerance = 8 / 10, encodings = [[0]], names = [''Alice'']\<rparr>" "[3 / 10]" "[0]"]
        match_embedding_nearest_within_threshold
          [of "\<lparr>tolerance = 8 / 10, encodings = [[0]], names = [''Alice'']\<rparr>" "[9 / 10]" "[0]"]
  by (simp add: euclidean_distance_single clamp_def)

text \<open>
  C2: whatever the threshold and the query embedding, matching against an empty list of stored
  encodings returns the label "Unknown" with confidence 0; the legacy recognizer does the
  same for every face location it is given.
\<close>

theorem match_embedding_empty_gallery:
  "match_embedding \<lparr>tolerance = t, encodings = [], names = ns\<rparr> emb
     = Inr \<lparr>name = ''Unknown'', confidence = 0\<rparr>
   \<and> recognize face_encodings
         \<lparr>SimpleFaceRecognizer.tolerance = t, SimpleFaceRecognizer.encodings = [],
          SimpleFaceRecognizer.names = ns\<rparr>
         frame_rgb face_locations
     = Inr (replicate (length face_locations) \<lparr>name = ''Unknown'', confidence = 0\<rparr>)"
  by (simp add: match_embedding_def recognize_def unknown_result_def map_replicate_const)

text \<open>
  C3: when the match of every detected face returns, \<^verbatim>\<open>process_frame\<close> returns one
  overlay per face that the detector reports for the frame, in the detector's order: the
  list has the detector's length, and the overlay at each position carries the box of the face
  at that position and the label and confidence of that face's match.
\<close>

theorem process_frame_one_overlay_per_face:
  assumes "\<forall>face\<in>set (app frame). \<exists>r. match_embedding s (embedding face) = Inr r"
  shows "\<exists>overlays. process_frame app s frame = Inr overlays
           \<and> length overlays = length (app frame)
           \<and> (\<forall>i<length (app frame).
                 VideoOverlayFace.box (overlays ! i) = face_box (app frame ! i)
               \<and> match_embedding s (embedding (app frame ! i))
                   = Inr \<lparr>name = label (overlays ! i),
                          confidence = VideoOverlayFace.confidence (overlays ! i)\<rparr>)"
proof -
  from analyze_loop_results[OF assms]
  obtain results where res: "analyze_loop s (app frame) = Inr results"
    "length results = length (app frame)"
    "\<forall>i<length (app frame). box (results ! i) = face_box (app frame ! i)
               \<and> match_embedding s (embedding (app frame ! i)) = Inr (result (results ! i))"
    by blast
  let ?ov = "map overlay_of results"
  have "process_frame app s frame = Inr ?ov"
    using res(1) by (simp add: process_frame_def analyze_def)
  moreover have "length ?ov = length (app frame)" using res(2) by simp
  moreover have "\<forall>i<length (app frame).
                 VideoOverlayFace.box (?ov ! i) = face_box (app frame ! i)
               \<and> match_embedding s (embedding (app frame ! i))
                   = Inr \<lparr>name = label (?ov ! i),
                          confidence = VideoOverlayFace.confidence (?ov ! i)\<rparr>"
    using res(2,3) by (simp add: overlay_of_def)
  ultimately show ?thesis by blast
qed

theorem process_frame_one_overlay_per_face_witness:
  "match_embedding alice_service [0] = Inr \<lparr>name = ''Alice'', confidence = 1\<rparr>
   \<and> match_embedding alice_service [5] = Inr \<lparr>name = ''Unknown'', confidence = 0\<rparr>
   \<and> (\<exists>overlays. process_frame two_faces alice_service 0 = Inr overlays
          \<and> length overlays = 2
          \<and> VideoOverlayFace.box (overlays ! 0) = (20, 110, 140, 10)
          \<and> label (overlays ! 0) = ''Alice''
          \<and> VideoOverlayFace.box (overlays ! 1) = (2, 50, 60, - 3)
          \<and> label (overlays ! 1) = ''Unknown'')"
proof -
  have h: "\<forall>face\<in>set (two_faces 0). \<exists>r. match_embedding alice_service (embedding face) = Inr r"
    by (simp add: two_faces_def match_alice_0 match_alice_5)
  from process_frame_one_overlay_per_face[of two_faces 0 alice_service, OF h]
  obtain overlays where ov: "process_frame two_faces alice_service 0 = Inr overlays"
    "length overlays = length (two_faces 0)"
    "\<forall>i<length (two_faces 0).
        VideoOverlayFace.box (overlays ! i) = face_box (two_faces 0 ! i)
      \<and> match_embedding alice_service (embedding (two_faces 0 ! i))
          = Inr \<lparr>name = label (overlays ! i),
                 confidence = VideoOverlayFace.confidence (overlays ! i)\<rparr>"
    by blast
  have l: "length overlays = 2" using ov(2) by (simp add: two_faces_def)
  have b0: "VideoOverlayFace.box (overlays ! 0) = (20, 110, 140, 10) \<and> label (overlays ! 0) = ''Alice''"
    using ov(3)[rule_format, of 0] by (simp add: two_faces_def face_box_def astype_int_def match_alice_0)
  have b1: "VideoOverlayFace.box (overlays ! 1) = (2, 50, 60, - 3) \<and> label (overlays ! 1) = ''Unknown''"
    using ov(3)[rule_format, of 1] by (simp add: two_faces_def face_box_def astype_int_def match_alice_5)
  show ?thesis using match_alice_0 match_alice_5 ov(1) l b0 b1 by blast
qed

text \<open>Whenever the code returns a result, its confidence lies between 0 and 1.\<close>

lemma match_embedding_confidence_range:
  "match_embedding s q = Inr r \<Longrightarrow> 0 \<le> confidence r \<and> confidence r \<le> 1"
  by (auto simp: match_embedding_def unknown_result_def Let_def split: if_splits sum.splits)

text \<open>
  C4: the confidence of the result lies between 0 and 1 for every input, a threshold of zero
  included. The code does not return a result for every input: with a threshold of zero and
  a query equal to a stored encoding the distance is 0, the test \<open>0 \<le> 0\<close> passes and the
  division \<open>0 / 0\<close> raises. The legacy recognizer has the same division.
\<close>

theorem match_embedding_zero_tolerance_raises:
  "match_embedding \<lparr>tolerance = 0, encodings = [[0]], names = [''Alice'']\<rparr> [0]
     = Inl ZeroDivisionError
   \<and> recognize_loop
         \<lparr>SimpleFaceRecognizer.tolerance = 0, SimpleFaceRecognizer.encodings = [[0]],
          SimpleFaceRecognizer.names = [''Alice'']\<rparr>
         [[0]]
     = Inl ZeroDivisionError"
  by (simp add: match_embedding_def face_distance_def np_stack_def row_sub_def
      np_linalg_norm_def l2norm_def np_argmin_def py_truediv_def)

text \<open>
  C5: when several entries of a non-empty gallery are at the least distance from the query,
  the code selects the first of them in stored order: the selected index is at most the
  index of every entry at that distance, and its name is the label returned.
\<close>

theorem match_embedding_first_of_ties:
  assumes ne: "encodings s \<noteq> []"
    and len: "length (names s) = length (encodings s)"
    and dims: "\<forall>e\<in>set (encodings s). length e = length q"
    and tol: "tolerance s \<noteq> 0"
  shows "\<exists>i<length (encodings s).
            (\<forall>j<length (encodings s).
               euclidean_distance (encodings s ! i) q \<le> euclidean_distance (encodings s ! j) q)
          \<and> (\<forall>j<length (encodings s).
               euclidean_distance (encodings s ! j) q = euclidean_distance (encodings s ! i) q
               \<longrightarrow> i \<le> j)
          \<and> (euclidean_distance (encodings s ! i) q \<le> tolerance s
               \<longrightarrow> (\<exists>c. match_embedding s q = Inr \<lparr>name = names s ! i, confidence = c\<rparr>))"
proof -
  from match_embedding_best[OF ne dims]
  obtain i where i: "i < length (encodings s)"
    "\<forall>j<length (encodings s).
       euclidean_distance (encodings s ! i) q \<le> euclidean_distance (encodings s ! j) q"
    "\<forall>j<i. euclidean_distance (encodings s ! i) q < euclidean_distance (encodings s ! j) q"
    and m: "match_embedding s q =
             (if euclidean_distance (encodings s ! i) q \<le> tolerance s then
                (if tolerance s = 0 then Inl ZeroDivisionError
                 else if i < length (names s) then
                   Inr \<lparr>name = names s ! i,
                        confidence =
                          max 0 (min 1 (1 - euclidean_distance (encodings s ! i) q / tolerance s))\<rparr>
                 else Inl IndexError)
              else Inr unknown_result)"
    by blast
  have first: "\<forall>j<length (encodings s).
               euclidean_distance (encodings s ! j) q = euclidean_distance (encodings s ! i) q
               \<longrightarrow> i \<le> j"
  proof (intro allI impI)
    fix j
    assume "j < length (encodings s)"
      and eq: "euclidean_distance (encodings s ! j) q = euclidean_distance (encodings s ! i) q"
    show "i \<le> j"
    proof (rule ccontr)
      assume "\<not> i \<le> j"
      then have "j < i" by simp
      with i(3) eq show False by force
    qed
  qed
  have res: "euclidean_distance (encodings s ! i) q \<le> tolerance s
               \<longrightarrow> (\<exists>c. match_embedding s q = Inr \<lparr>name = names s ! i, confidence = c\<rparr>)"
    using m tol i(1) len by simp
  show ?thesis using i(1,2) first res by blast
qed

theorem match_embedding_first_of_ties_witness:
  "\<exists>c. match_embedding
          \<lparr>tolerance = 8 / 10, encodings = [[1], [0], [0]], names = [''Carol'', ''Alice'', ''Bob'']\<rparr>
          [0]
        = Inr \<lparr>name = ''Alice'', confidence = c\<rparr>"
  using match_embedding_first_of_ties
      [of "\<lparr>tolerance = 8 / 10, encodings = [[1], [0], [0]],
             names = [''Carol'', ''Alice'', ''Bob'']\<rparr>" "[0]"]
  apply (simp add: euclidean_distance_single less_Suc_eq all_conj_distrib)
  apply (elim disjE conjE exE)
    apply (simp_all add: euclidean_distance_single)
  done

text \<open>
  C6, as stated: on every exit the camera is released and then the window is closed, each
  exactly once. The \<^verbatim>\<open>finally\<close> clause calls \<^verbatim>\<open>main_view.close()\<close> first and
  \<^verbatim>\<open>camera_controller.shutdown()\<close> second: on a run that ends with the quit key, with
  both calls returning, the release does not come before the close.
\<close>

theorem shutdown_release_before_close_counterexample:
  "snd (run no_faces alice_service 0 [ok_env 1 7, quit_env 2 8] clean_shutdown) = Returned
   \<and> \<not> occurs_before CameraRelease ViewClose
         (fst (run no_faces alice_service 0 [ok_env 1 7, quit_env 2 8] clean_shutdown))
   \<and> occurs_before ViewClose CameraRelease
         (fst (run no_faces alice_service 0 [ok_env 1 7, quit_env 2 8] clean_shutdown))"
  by (simp add: run_quit occurs_before_def first_index_def)

text \<open>
  C6, amended: whenever the loop has exited, by the quit key, by an interrupt or by any other
  exception, the view is closed exactly once, and when that close returns the camera is
  then released exactly once. The trace is the events of the loop, in which neither call
  occurs, then the log line of the shutdown and the close of the view, then a rest in which
  the view is not closed again; when the close returns, that rest is the one release of the
  camera. What the rest is when the close raises is not part of the statement.
\<close>

theorem shutdown_closes_view_then_releases_camera:
  assumes "snd (run app service t0 envs sd) \<noteq> Running"
  shows "\<exists>evs rest. fst (run app service t0 envs sd)
                        = evs @ [Log INFO ''Shutting down'', ViewClose] @ rest
               \<and> ViewClose \<notin> set evs \<and> CameraRelease \<notin> set evs
               \<and> ViewClose \<notin> set rest
               \<and> (view_close sd = Returns () \<longrightarrow> rest = [CameraRelease])"
proof -
  let ?G = ?thesis
  obtain evs fl where m: "main_loop app service t0 envs = (evs, fl)"
    by (cases "main_loop app service t0 envs")
  have k: "ViewClose \<notin> set evs \<and> CameraRelease \<notin> set evs"
    using main_loop_keeps_resources[of app service t0 envs] m by simp
  have step: "\<And>pre pending. ViewClose \<notin> set pre \<Longrightarrow> CameraRelease \<notin> set pre
      \<Longrightarrow> run app service t0 envs sd = leave_try sd pre pending
      \<Longrightarrow> ?G"
  proof -
    fix pre :: "'a event list" and pending
    assume p: "ViewClose \<notin> set pre" "CameraRelease \<notin> set pre"
      and r: "run app service t0 envs sd = leave_try sd pre pending"
    from leave_try_trace[of sd pre pending]
    obtain rest where
      "fst (leave_try sd pre pending) = pre @ [Log INFO ''Shutting down'', ViewClose] @ rest"
      "ViewClose \<notin> set rest" "view_close sd = Returns () \<longrightarrow> rest = [CameraRelease]"
      by blast
    with p r show ?G by auto
  qed
  show ?thesis
  proof (cases fl)
    case Continue
    with m assms show ?thesis by (simp add: run_def)
  next
    case Break
    with m have "run app service t0 envs sd = leave_try sd evs None" by (simp add: run_def)
    with k step show ?thesis by blast
  next
    case (Raised x)
    show ?thesis
    proof (cases x)
      case KeyboardInterrupt
      with Raised m have
        "run app service t0 envs sd
           = leave_try sd (evs @ [Log INFO ''Interrupted by user'']) None"
        by (simp add: run_def)
      moreover have "ViewClose \<notin> set (evs @ [Log INFO ''Interrupted by user''])"
        "CameraRelease \<notin> set (evs @ [Log INFO ''Interrupted by user''])"
        using k by simp_all
      ultimately show ?thesis using step by blast
    next
      case (PyError e)
      with Raised m have "run app service t0 envs sd = leave_try sd evs (Some (PyError e))"
        by (simp add: run_def)
      with k step show ?thesis by blast
    next
      case ExternalError
      with Raised m have "run app service t0 envs sd = leave_try sd evs (Some ExternalError)"
        by (simp add: run_def)
      with k step show ?thesis by blast
    qed
  qed
qed

theorem shutdown_closes_view_then_releases_camera_witness:
  "snd (run no_faces alice_service 0 [ok_env 1 7, quit_env 2 8] clean_shutdown) \<noteq> Running
   \<and> snd (run no_faces alice_service 0 [ok_env 1 7, interrupt_env 2] clean_shutdown) \<noteq> Running
   \<and> snd (run no_faces alice_service 0 [ok_env 1 7, render_error_env 2 8] clean_shutdown)
       \<noteq> Running
   \<and> snd (run no_faces alice_service 0 [ok_env 1 7, render_error_env 2 8] close_fails_shutdown)
       \<noteq> Running
   \<and> view_close clean_shutdown = Returns ()
   \<and> (\<exists>evs. fst (run no_faces alice_service 0 [ok_env 1 7, quit_env 2 8] clean_shutdown)
                 = evs @ [Log INFO ''Shutting down'', ViewClose, CameraRelease]
               \<and> ViewClose \<notin> set evs \<and> CameraRelease \<notin> set evs)
   \<and> (\<exists>evs. fst (run no_faces alice_service 0 [ok_env 1 7, interrupt_env 2] clean_shutdown)
                 = evs @ [Log INFO ''Shutting down'', ViewClose, CameraRelease]
               \<and> ViewClose \<notin> set evs \<and> CameraRelease \<notin> set evs)
   \<and> (\<exists>evs. fst (run no_faces alice_service 0 [ok_env 1 7, render_error_env 2 8]
                       clean_shutdown)
                 = evs @ [Log INFO ''Shutting down'', ViewClose, CameraRelease]
               \<and> ViewClose \<notin> set evs \<and> CameraRelease \<notin> set evs)
   \<and> (\<exists>evs rest. fst (run no_faces alice_service 0 [ok_env 1 7, render_error_env 2 8]
                            close_fails_shutdown)
                 = evs @ [Log INFO ''Shutting down'', ViewClose] @ rest
               \<and> ViewClose \<notin> set evs \<and> CameraRelease \<notin> set evs \<and> ViewClose \<notin> set rest)"
proof -
  have q: "snd (run no_faces alice_service 0 [ok_env 1 7, quit_env 2 8] clean_shutdown)
             \<noteq> Running"
    by (simp add: run_quit)
  have i: "snd (run no_faces alice_service 0 [ok_env 1 7, interrupt_env 2] clean_shutdown)
             \<noteq> Running"
    by (simp add: run_interrupt)
  have e: "snd (run no_faces alice_service 0 [ok_env 1 7, render_error_env 2 8] clean_shutdown)
             \<noteq> Running"
    by (simp add: run_render_error)
  have f: "snd (run no_faces alice_service 0 [ok_env 1 7, render_error_env 2 8]
                  close_fails_shutdown) \<noteq> Running"
    by (simp add: run_render_error_close_fails)
  have c: "view_close clean_shutdown = Returns ()"
    by (simp add: clean_shutdown_def)
  have a1: "\<exists>evs. fst (run no_faces alice_service 0 [ok_env 1 7, quit_env 2 8] clean_shutdown)
                 = evs @ [Log INFO ''Shutting down'', ViewClose, CameraRelease]
               \<and> ViewClose \<notin> set evs \<and> CameraRelease \<notin> set evs"
    using shutdown_closes_view_then_releases_camera[OF q] c by auto
  have a2: "\<exists>evs. fst (run no_faces alice_service 0 [ok_env 1 7, interrupt_env 2] clean_shutdown)
                 = evs @ [Log INFO ''Shutting down'', ViewClose, CameraRelease]
               \<and> ViewClose \<notin> set evs \<and> CameraRelease \<notin> set evs"
    using shutdown_closes_view_then_releases_camera[OF i] c by auto
  have a3: "\<exists>evs. fst (run no_faces alice_service 0 [ok_env 1 7, render_error_env 2 8]
                       clean_shutdown)
                 = evs @ [Log INFO ''Shutting down'', ViewClose, CameraRelease]
               \<and> ViewClose \<notin> set evs \<and> CameraRelease \<notin> set evs"
    using shutdown_closes_view_then_releases_camera[OF e] c by auto
  have a4: "\<exists>evs rest. fst (run no_faces alice_service 0 [ok_env 1 7, render_error_env 2 8]
                            close_fails_shutdown)
                 = evs @ [Log INFO ''Shutting down'', ViewClose] @ rest
               \<and> ViewClose \<notin> set evs \<and> CameraRelease \<notin> set evs \<and> ViewClose \<notin> set rest"
    using shutdown_closes_view_then_releases_camera[OF f] by blast
  show ?thesis using q i e f c a1 a2 a3 a4 by blast
qed

text \<open>
  C7: when the gallery directory does not exist, the load returns without an error and
  leaves the store empty, and every match against that store is "Unknown" with confidence 0.
\<close>

theorem load_known_faces_missing_directory:
  "\<exists>s. post_init app None tol = Inr s \<and> encodings s = [] \<and> names s = []
       \<and> (\<forall>emb. match_embedding s emb = Inr \<lparr>name = ''Unknown'', confidence = 0\<rparr>)"
  by (simp add: post_init_def load_known_faces_def match_embedding_def unknown_result_def)

text \<open>
  C8: an iteration whose frame read reports failure logs a warning and does nothing else, and
  the loop goes on with the next iteration: the trace of the loop is the read, the warning,
  and then the trace of the remaining iterations, whose outcome is the loop's outcome.
\<close>

theorem failed_read_is_logged_and_skipped:
  assumes "camera_read env = Returns (False, frame)"
  shows "loop_body app service fps env
           = ([CameraRead, Log WARNING ''Failed to read frame from camera''], Continue)
       \<and> main_loop app service last_time (env # envs)
           = ([CameraRead, Log WARNING ''Failed to read frame from camera'']
                @ fst (main_loop app service (perf_counter env) envs),
              snd (main_loop app service (perf_counter env) envs))"
proof -
  have b: "\<And>fps. loop_body app service fps env
           = ([CameraRead, Log WARNING ''Failed to read frame from camera''], Continue)"
    using assms by (simp add: loop_body_def)
  show ?thesis
    by (simp add: b measure_fps_step_eq split: prod.splits)
qed

theorem failed_read_is_logged_and_skipped_witness:
  "camera_read (failed_read_env 3) = Returns (False, 0)
   \<and> main_loop no_faces alice_service 0
        [ok_env 1 11, ok_env 2 12, failed_read_env 3, ok_env 4 14, ok_env 5 15]
      = ([CameraRead, ProcessFrame 11, ShowFrame 11 [] 1, WaitKey,
          CameraRead, ProcessFrame 12, ShowFrame 12 [] 1, WaitKey,
          CameraRead, Log WARNING ''Failed to read frame from camera'',
          CameraRead, ProcessFrame 14, ShowFrame 14 [] 1, WaitKey,
          CameraRead, ProcessFrame 15, ShowFrame 15 [] 1, WaitKey], Continue)"
proof -
  have h: "camera_read (failed_read_env 3) = Returns (False, 0)"
    by (simp add: failed_read_env_def)
  have p: "perf_counter (failed_read_env 3) = 3" by (simp add: failed_read_env_def)
  have rest: "main_loop no_faces alice_service 3 [ok_env 4 14, ok_env 5 15]
      = ([CameraRead, ProcessFrame 14, ShowFrame 14 [] 1, WaitKey,
          CameraRead, ProcessFrame 15, ShowFrame 15 [] 1, WaitKey], Continue)"
    by (simp add: measure_fps_step_eq loop_body_def ok_env_def process_no_faces process_events_no_key)
  have mid: "main_loop no_faces alice_service 2 [failed_read_env 3, ok_env 4 14, ok_env 5 15]
      = ([CameraRead, Log WARNING ''Failed to read frame from camera'',
          CameraRead, ProcessFrame 14, ShowFrame 14 [] 1, WaitKey,
          CameraRead, ProcessFrame 15, ShowFrame 15 [] 1, WaitKey], Continue)"
    using failed_read_is_logged_and_skipped[OF h, of no_faces alice_service 0 2 "[ok_env 4 14, ok_env 5 15]"]
    by (simp add: p rest del: main_loop.simps)
  have all: "main_loop no_faces alice_service 0
        [ok_env 1 11, ok_env 2 12, failed_read_env 3, ok_env 4 14, ok_env 5 15]
      = ([CameraRead, ProcessFrame 11, ShowFrame 11 [] 1, WaitKey,
          CameraRead, ProcessFrame 12, ShowFrame 12 [] 1, WaitKey,
          CameraRead, Log WARNING ''Failed to read frame from camera'',
          CameraRead, ProcessFrame 14, ShowFrame 14 [] 1, WaitKey,
          CameraRead, ProcessFrame 15, ShowFrame 15 [] 1, WaitKey], Continue)"
    using mid
    by (simp add: measure_fps_step_eq loop_body_def ok_env_def process_no_faces process_events_no_key)
  show ?thesis using h all by blast
qed

text \<open>
  C9: for the readings \<open>t0, t1, ...\<close> of the clock, the \<open>k\<close>-th pair the generator yields is
  the difference \<open>delta\<close> of the readings \<open>k + 1\<close> and \<open>k\<close> with the estimate \<open>1 / delta\<close>
  when \<open>delta\<close> is positive and 0 otherwise; the generator never raises, so it never divides
  by zero.
\<close>

theorem measure_fps_reciprocal_of_delta:
  "measure_fps (t0 # ts) =
     Inr (map (\<lambda>k. let delta = (t0 # ts) ! Suc k - (t0 # ts) ! k
                   in (delta, if delta > 0 then 1 / delta else 0)) [0..<length ts])"
  by (simp add: measure_fps_def measure_fps_loop_eq)

text \<open>
  C10: after the gallery load the lists of encodings and of names have the same length, and
  no match against the loaded service raises \<open>IndexError\<close>: the index that
  \<^verbatim>\<open>np.argmin\<close> returns is within the list of names.
\<close>

theorem load_known_faces_pairs_names_with_encodings:
  assumes "post_init app known_faces_dir tol = Inr s"
  shows "length (encodings s) = length (names s)
         \<and> (\<forall>emb. match_embedding s emb \<noteq> Inl IndexError)"
proof -
  have "length (encodings s) = length (names s)"
    using assms load_known_faces_lengths[of app known_faces_dir _ s]
    by (simp add: post_init_def)
  then show ?thesis using match_embedding_no_index_error by blast
qed

theorem load_known_faces_pairs_names_with_encodings_witness:
  "post_init one_face
     (Some (Dir [(''alice'', Dir [(''a.jpg'', File (Some 0)), (''notes.txt'', File None)]),
                 (''readme.md'', File None),
                 (''bob'', Dir [(''b.jpg'', File (Some 1)), (''broken.jpg'', File None)])]))
     (8 / 10)
   = Inr \<lparr>tolerance = 8 / 10, encodings = [[0], [1]], names = [''alice'', ''bob'']\<rparr>
   \<and> length [[0::real], [1]] = length [''alice'', ''bob'']
   \<and> match_embedding \<lparr>tolerance = 8 / 10, encodings = [[0], [1]], names = [''alice'', ''bob'']\<rparr> [1]
       \<noteq> Inl IndexError"
proof -
  have p: "post_init one_face
     (Some (Dir [(''alice'', Dir [(''a.jpg'', File (Some 0)), (''notes.txt'', File None)]),
                 (''readme.md'', File None),
                 (''bob'', Dir [(''b.jpg'', File (Some 1)), (''broken.jpg'', File None)])]))
     (8 / 10)
   = Inr \<lparr>tolerance = 8 / 10, encodings = [[0], [1]], names = [''alice'', ''bob'']\<rparr>"
    by (simp add: post_init_def load_known_faces_def glob_jpg_def suffix_to_prefix cv2_imread_def
        compute_embedding_for_image_def one_face_def)
  from load_known_faces_pairs_names_with_encodings[OF p] p show ?thesis by simp
qed

end
